theory Spec2Isabelle
  imports Main
begin

section \<open>The plugin broadcast server (app/src/Plugins/Server.cpp)\<close>

text \<open>
  A shallow embedding of the slots of \<open>Plugins::Server\<close>. Every slot runs to completion
  on the single event thread, so a slot is a function from the state before the call to the
  state after it. Everything a slot does to the outside (socket writes, aborts, the bytes
  handed to \<open>IO::Manager\<close>, log lines) is appended, in program order, to the field
  \<open>effects\<close> of the state.
\<close>

subsection \<open>Data\<close>

text \<open>
  A \<open>QTcpSocket *\<close> is the identity of a socket object; the null pointer is \<open>None\<close>.
  A \<open>QByteArray\<close> is a list of 8-bit characters, and so is a \<open>QString\<close> (kept in UTF-8,
  which makes \<open>QString::fromUtf8\<close> the identity).
\<close>

type_synonym QTcpSocket = nat
type_synonym QByteArray = string

text \<open>The JSON values that the slots build with \<open>QJsonObject\<close> and \<open>QJsonArray\<close>.\<close>

datatype QJsonValue =
    JNull
  | JBool bool
  | JNumber int
  | JString string
  | JArray "QJsonValue list"
  | JObject "(string \<times> QJsonValue) list"

text \<open>
  Functions used by the slots and defined outside \<open>Server.cpp\<close>, taken as parameters:
  \<open>JSON::Frame::serialize\<close>, \<open>QJsonDocument::toJson(QJsonDocument::Compact)\<close> and
  \<open>QByteArray::toBase64\<close>. The frame type \<open>'f\<close> is opaque.
\<close>

record 'f externals =
  serialize :: "'f \<Rightarrow> QJsonValue"
  toJson :: "QJsonValue \<Rightarrow> QByteArray"
  toBase64 :: "QByteArray \<Rightarrow> QByteArray"

text \<open>What a slot does to the outside world.\<close>

datatype effect =
    Write QTcpSocket QByteArray     \<comment> \<open>\<open>socket->write(json)\<close>\<close>
  | Abort QTcpSocket                \<comment> \<open>\<open>socket->abort()\<close>\<close>
  | Close QTcpSocket                \<comment> \<open>\<open>socket->close()\<close>\<close>
  | DeleteLater QTcpSocket          \<comment> \<open>\<open>socket->deleteLater()\<close>\<close>
  | ConnectSignals QTcpSocket       \<comment> \<open>the three \<open>connect\<close> calls of \<open>acceptConnection\<close>\<close>
  | WriteData QByteArray            \<comment> \<open>\<open>IO::Manager::instance().writeData(bytes)\<close>\<close>
  | EnabledChanged                  \<comment> \<open>\<open>Q_EMIT enabledChanged()\<close>\<close>
  | DebugText string                \<comment> \<open>\<open>qDebug() << socket->errorString()\<close>\<close>
  | DebugCode int                   \<comment> \<open>\<open>qDebug() << socketError\<close>\<close>
  | MessageBox string string        \<comment> \<open>\<open>Misc::Utilities::showMessageBox\<close>\<close>
  | ServerClose                     \<comment> \<open>\<open>m_server.close()\<close>\<close>

text \<open>
  The members of the class (\<open>m_enabled\<close>, \<open>m_sockets\<close>, \<open>m_frames\<close>), followed by the
  part of the sockets' own state that the slots depend on: whether a socket is writable, the
  bytes waiting in its read buffer (what \<open>readAll\<close> returns and removes), its error string,
  and whether it is in \<open>ConnectedState\<close> (which decides what \<open>abort\<close> does).
\<close>

record 'f server =
  m_enabled :: bool
  m_sockets :: "QTcpSocket option list"
  m_frames :: "'f list"
  isWritable :: "QTcpSocket \<Rightarrow> bool"
  readBuffer :: "QTcpSocket \<Rightarrow> QByteArray"
  errorString :: "QTcpSocket \<Rightarrow> string"
  connected :: "QTcpSocket \<Rightarrow> bool"
  effects :: "effect list"

definition emit :: "effect list \<Rightarrow> 'f server \<Rightarrow> 'f server" where
  "emit es s = s\<lparr>effects := effects s @ es\<rparr>"

subsection \<open>Constructor\<close>

text \<open>
  The constructor starts disabled with no socket and no frame. Its argument \<open>listening\<close> is
  the result of \<open>m_server.listen\<close>, \<open>err\<close> the server's error string; the other four are
  the sockets' state.
\<close>

definition Server ::
  "bool \<Rightarrow> string \<Rightarrow> (QTcpSocket \<Rightarrow> bool) \<Rightarrow> (QTcpSocket \<Rightarrow> QByteArray) \<Rightarrow>
   (QTcpSocket \<Rightarrow> string) \<Rightarrow> (QTcpSocket \<Rightarrow> bool) \<Rightarrow> 'f server" where
  "Server listening err w r e k =
     \<lparr>m_enabled = False, m_sockets = [], m_frames = [],
      isWritable = w, readBuffer = r, errorString = e, connected = k,
      effects = (if \<not> listening
                 then [MessageBox ''Unable to start plugin TCP server'' err, ServerClose]
                 else [])\<rparr>"

subsection \<open>removeConnection\<close>

definition removeAt :: "nat \<Rightarrow> 'a list \<Rightarrow> 'a list" where
  "removeAt i xs = take i xs @ drop (Suc i) xs"

text \<open>
  The loop of \<open>removeConnection\<close>, with its index: on a match the entry is removed and
  \<open>i\<close> is set to 0, which the loop's \<open>++i\<close> turns into 1 before the next test.
\<close>

function removeLoop ::
  "QTcpSocket \<Rightarrow> nat \<Rightarrow> QTcpSocket option list \<Rightarrow> QTcpSocket option list" where
  "removeLoop socket i sockets =
     (if i < length sockets
      then (if sockets ! i = Some socket
            then removeLoop socket (Suc 0) (removeAt i sockets)
            else removeLoop socket (Suc i) sockets)
      else sockets)"
  by pat_completeness auto
termination
  by (relation "measures [\<lambda>(c, i, xs). length xs, \<lambda>(c, i, xs). length xs - i]")
     (auto simp: removeAt_def)

declare removeLoop.simps [simp del]

text \<open>The argument \<open>sender\<close> is \<open>QObject::sender()\<close>.\<close>

definition removeConnection :: "QTcpSocket option \<Rightarrow> 'f server \<Rightarrow> 'f server" where
  "removeConnection sender s =
     (case sender of
        None \<Rightarrow> s
      | Some socket \<Rightarrow>
          emit [DeleteLater socket]
            (s\<lparr>m_sockets := removeLoop socket 0 (m_sockets s)\<rparr>))"

subsection \<open>setEnabled\<close>

text \<open>
  \<open>socket->abort()\<close>. On a socket in \<open>ConnectedState\<close> the call closes the socket and
  emits \<open>disconnected()\<close> before it returns; \<open>acceptConnection\<close> has connected that signal
  to \<open>removeConnection\<close> on the same thread, so that slot runs inside the call, with the
  socket as sender. On a socket that is not connected no signal is emitted.
\<close>

definition abort :: "QTcpSocket \<Rightarrow> 'f server \<Rightarrow> 'f server" where
  "abort socket s =
     (if connected s socket
      then removeConnection (Some socket)
             (emit [Abort socket]
                (s\<lparr>isWritable := (isWritable s)(socket := False),
                   readBuffer := (readBuffer s)(socket := []),
                   connected := (connected s)(socket := False)\<rparr>))
      else emit [Abort socket] s)"

text \<open>
  The loop of \<open>setEnabled\<close>, with its index: it reads \<open>m_sockets.count()\<close> and
  \<open>m_sockets.at(i)\<close> afresh in every round, while \<open>abort\<close> may have shortened the list.
\<close>

function abortLoop :: "nat \<Rightarrow> 'f server \<Rightarrow> 'f server" where
  "abortLoop i s =
     (if i < length (m_sockets s)
      then (case m_sockets s ! i of
              None \<Rightarrow> abortLoop (Suc i) s
            | Some socket \<Rightarrow> abortLoop (Suc i) (emit [DeleteLater socket] (abort socket s)))
      else s)"
  by pat_completeness auto
termination
proof (relation "measure (\<lambda>(i, s). length (m_sockets s) - i)")
  have len: "length (removeLoop c j xs) \<le> length xs" for c j xs
  proof (induction c j xs rule: removeLoop.induct)
    case (1 socket i sockets)
    show ?case
    proof (cases "i < length sockets")
      case False
      then show ?thesis by (subst removeLoop.simps) simp
    next
      case True
      show ?thesis
      proof (cases "sockets ! i = Some socket")
        case eq: True
        have "length (removeAt i sockets) \<le> length sockets"
          by (simp add: removeAt_def)
        with 1(1)[OF True eq] True eq show ?thesis
          by (subst removeLoop.simps) simp
      next
        case ne: False
        with 1(2)[OF True ne] True show ?thesis
          by (subst removeLoop.simps) simp
      qed
    qed
  qed
  have shrink: "length (m_sockets (emit [DeleteLater c] (abort c s))) \<le> length (m_sockets s)"
    for c and s :: "'f server"
    using len[of c 0 "m_sockets s"]
    by (simp add: abort_def removeConnection_def emit_def)
  show "wf (measure (\<lambda>(i, s :: 'f server). length (m_sockets s) - i))"
    by simp
  show "((Suc i, s), (i, s)) \<in> measure (\<lambda>(i, s). length (m_sockets s) - i)"
    if "i < length (m_sockets s)" for i and s :: "'f server"
    using that by simp
  show "((Suc i, emit [DeleteLater c] (abort c s)), (i, s))
          \<in> measure (\<lambda>(i, s). length (m_sockets s) - i)"
    if "i < length (m_sockets s)" for i c and s :: "'f server"
    using that shrink[of c s] by simp
qed

declare abortLoop.simps [simp del]

definition setEnabled :: "bool \<Rightarrow> 'f server \<Rightarrow> 'f server" where
  "setEnabled enabled s =
     (let s1 = emit [EnabledChanged] (s\<lparr>m_enabled := enabled\<rparr>);
          s2 = (if \<not> enabled
                then (abortLoop 0 s1)\<lparr>m_sockets := []\<rparr>
                else s1)
      in s2\<lparr>m_frames := []\<rparr>)"

subsection \<open>onDataReceived\<close>

definition onDataReceived :: "QTcpSocket option \<Rightarrow> 'f server \<Rightarrow> 'f server" where
  "onDataReceived sender s =
     (if m_enabled s
      then (case sender of
              None \<Rightarrow> s
            | Some socket \<Rightarrow>
                emit [WriteData (readBuffer s socket)]
                  (s\<lparr>readBuffer := (readBuffer s)(socket := [])\<rparr>))
      else s)"

subsection \<open>acceptConnection\<close>

text \<open>The argument \<open>pending\<close> is the result of \<open>m_server.nextPendingConnection()\<close>.\<close>

definition acceptConnection :: "QTcpSocket option \<Rightarrow> 'f server \<Rightarrow> 'f server" where
  "acceptConnection pending s =
     (if pending = None \<and> m_enabled s
      then emit [MessageBox ''Plugin server'' ''Invalid pending connection''] s
      else if \<not> m_enabled s
      then (case pending of
              None \<Rightarrow> s
            | Some socket \<Rightarrow> emit [Close socket, DeleteLater socket] s)
      else emit (case pending of None \<Rightarrow> [] | Some socket \<Rightarrow> [ConnectSignals socket])
             (s\<lparr>m_sockets := m_sockets s @ [pending]\<rparr>))"

subsection \<open>sendProcessedData and sendRawData\<close>

text \<open>The \<open>Q_FOREACH\<close> loop that both broadcasts end with.\<close>

fun writeAll :: "(QTcpSocket \<Rightarrow> bool) \<Rightarrow> QByteArray \<Rightarrow> QTcpSocket option list \<Rightarrow> effect list" where
  "writeAll w json [] = []"
| "writeAll w json (None # sockets) = writeAll w json sockets"
| "writeAll w json (Some socket # sockets) =
     (if w socket then Write socket json # writeAll w json sockets
      else writeAll w json sockets)"

text \<open>The loop that fills the \<open>QJsonArray\<close>, one object per frame.\<close>

fun frameArray :: "'f externals \<Rightarrow> 'f list \<Rightarrow> QJsonValue list \<Rightarrow> QJsonValue list" where
  "frameArray ext [] array = array"
| "frameArray ext (frame # frames) array =
     frameArray ext frames (array @ [JObject [(''data'', serialize ext frame)]])"

definition sendProcessedData :: "'f externals \<Rightarrow> 'f server \<Rightarrow> 'f server" where
  "sendProcessedData ext s =
     (if \<not> m_enabled s then s
      else if length (m_frames s) \<le> 0 then s
      else if length (m_sockets s) < 1 then s
      else
        (let array = frameArray ext (m_frames s) [];
             s1 = (if length array > 0
                   then (let json = toJson ext (JObject [(''frames'', JArray array)]) @ [CHR 0x0A]
                         in emit (writeAll (isWritable s) json (m_sockets s)) s)
                   else s)
         in s1\<lparr>m_frames := []\<rparr>))"

definition sendRawData :: "'f externals \<Rightarrow> QByteArray \<Rightarrow> 'f server \<Rightarrow> 'f server" where
  "sendRawData ext data s =
     (if \<not> m_enabled s then s
      else if length (m_sockets s) < 1 then s
      else
        (let json = toJson ext (JObject [(''data'', JString (toBase64 ext data))]) @ [CHR 0x0A]
         in emit (writeAll (isWritable s) json (m_sockets s)) s))"

subsection \<open>registerFrame and onErrorOccurred\<close>

definition registerFrame :: "'f \<Rightarrow> 'f server \<Rightarrow> 'f server" where
  "registerFrame frame s =
     (if m_enabled s then s\<lparr>m_frames := m_frames s @ [frame]\<rparr> else s)"

definition onErrorOccurred :: "QTcpSocket option \<Rightarrow> int \<Rightarrow> 'f server \<Rightarrow> 'f server" where
  "onErrorOccurred sender socketError s =
     (case sender of
        Some socket \<Rightarrow> emit [DebugText (errorString s socket)] s
      | None \<Rightarrow> emit [DebugCode socketError] s)"

subsection \<open>Events\<close>

text \<open>
  The signals connected in the constructor and in \<open>acceptConnection\<close>, the call of
  \<open>setEnabled\<close>, and three changes that the sockets undergo on their own: bytes arriving
  from a client, a change of writability and a change of connection state.
\<close>

datatype 'f event =
    NewConnection "QTcpSocket option"
  | ReadyRead "QTcpSocket option"
  | Disconnected "QTcpSocket option"
  | ErrorOccurred "QTcpSocket option" int
  | FrameChanged 'f
  | Timeout1Hz
  | DataReceived QByteArray
  | SetEnabled bool
  | BytesArrive QTcpSocket QByteArray
  | WritableChanged QTcpSocket bool
  | StateChanged QTcpSocket bool

fun dispatch :: "'f externals \<Rightarrow> 'f event \<Rightarrow> 'f server \<Rightarrow> 'f server" where
  "dispatch ext (NewConnection pending) s = acceptConnection pending s"
| "dispatch ext (ReadyRead sender) s = onDataReceived sender s"
| "dispatch ext (Disconnected sender) s = removeConnection sender s"
| "dispatch ext (ErrorOccurred sender socketError) s = onErrorOccurred sender socketError s"
| "dispatch ext (FrameChanged frame) s = registerFrame frame s"
| "dispatch ext Timeout1Hz s = sendProcessedData ext s"
| "dispatch ext (DataReceived data) s = sendRawData ext data s"
| "dispatch ext (SetEnabled enabled) s = setEnabled enabled s"
| "dispatch ext (BytesArrive socket bytes) s =
     s\<lparr>readBuffer := (readBuffer s)(socket := readBuffer s socket @ bytes)\<rparr>"
| "dispatch ext (WritableChanged socket b) s =
     s\<lparr>isWritable := (isWritable s)(socket := b)\<rparr>"
| "dispatch ext (StateChanged socket b) s =
     s\<lparr>connected := (connected s)(socket := b)\<rparr>"

fun run :: "'f externals \<Rightarrow> 'f event list \<Rightarrow> 'f server \<Rightarrow> 'f server" where
  "run ext [] s = s"
| "run ext (e # es) s = run ext es (dispatch ext e s)"

text \<open>The messages written to one socket, in order.\<close>

fun writesTo :: "QTcpSocket \<Rightarrow> effect list \<Rightarrow> QByteArray list" where
  "writesTo c [] = []"
| "writesTo c (Write c' json # es) =
     (if c' = c then json # writesTo c es else writesTo c es)"
| "writesTo c (_ # es) = writesTo c es"

section \<open>A concrete instance\<close>

text \<open>
  An instance of the external functions, for running the slots on concrete states; every
  theorem below is proved for all instances. Frames are strings and serialise to JSON
  strings; \<open>compactJson\<close> prints a value without white space (strings are not escaped);
  \<open>base64\<close> is the standard alphabet with \<open>=\<close> padding.
\<close>

fun commas :: "string list \<Rightarrow> string" where
  "commas [] = []"
| "commas [x] = x"
| "commas (x # y # ys) = x @ CHR '','' # commas (y # ys)"

definition quoted :: "string \<Rightarrow> string" where
  "quoted str = CHR 0x22 # str @ [CHR 0x22]"

fun showNat :: "nat \<Rightarrow> string" where
  "showNat n =
     (if n < 10 then [char_of (48 + n)] else showNat (n div 10) @ [char_of (48 + n mod 10)])"

declare showNat.simps [simp del]

fun compactJson :: "QJsonValue \<Rightarrow> QByteArray" where
  "compactJson JNull = ''null''"
| "compactJson (JBool b) = (if b then ''true'' else ''false'')"
| "compactJson (JNumber n) = (if n < 0 then ''-'' else []) @ showNat (nat \<bar>n\<bar>)"
| "compactJson (JString str) = quoted str"
| "compactJson (JArray xs) = ''['' @ commas (map compactJson xs) @ '']''"
| "compactJson (JObject kvs) =
     ''{'' @ commas (map (\<lambda>kv. quoted (fst kv) @ '':'' @ compactJson (snd kv)) kvs) @ ''}''"

definition b64 :: "nat \<Rightarrow> char" where
  "b64 n = ''ABCDEFGHIJKLMNOPQRSTUVWXYZabcdefghijklmnopqrstuvwxyz0123456789+/'' ! n"

fun base64 :: "nat list \<Rightarrow> string" where
  "base64 [] = []"
| "base64 [a] = [b64 (a div 4), b64 ((a mod 4) * 16), CHR ''='', CHR ''='']"
| "base64 [a, b] =
     [b64 (a div 4), b64 ((a mod 4) * 16 + b div 16), b64 ((b mod 16) * 4), CHR ''='']"
| "base64 (a # b # c # rest) =
     [b64 (a div 4), b64 ((a mod 4) * 16 + b div 16), b64 ((b mod 16) * 4 + c div 64),
      b64 (c mod 64)] @ base64 rest"

definition ext0 :: "string externals" where
  "ext0 = \<lparr>serialize = JString, toJson = compactJson,
           toBase64 = (\<lambda>bytes. base64 (map of_char bytes))\<rparr>"

text \<open>
  The server as constructed (listening, socket 1 writable, socket 2 not, every socket
  connected); the same after
  enabling and accepting two clients; and enabled with one frame and no client.
\<close>

definition boot :: "string server" where
  "boot = Server True [] (\<lambda>c. c = 1) (\<lambda>c. []) (\<lambda>c. []) (\<lambda>c. True)"

definition twoClients :: "string server" where
  "twoClients = run ext0 [SetEnabled True, NewConnection (Some 1), NewConnection (Some 2)] boot"

definition noClients :: "string server" where
  "noClients = run ext0 [SetEnabled True, FrameChanged ''f1''] boot"

text \<open>
  A disabled server that still lists socket 1, with three unread bytes on that socket. No
  sequence of slots leads to a disabled server that lists a socket (see
  \<open>disabled_no_sockets_dispatch\<close>), though a socket that the loop of \<open>setEnabled(false)\<close>
  skipped is still wired to \<open>onDataReceived\<close>; that slot reads only the flag and the
  sender. The state is what a statement about a registered connection of a disabled server
  speaks of.
\<close>

definition dormant :: "string server" where
  "dormant = \<lparr>m_enabled = False, m_sockets = [Some 1], m_frames = [],
      isWritable = (\<lambda>c. True), readBuffer = (\<lambda>c. if c = 1 then ''abc'' else []),
      errorString = (\<lambda>c. []), connected = (\<lambda>c. True), effects = []\<rparr>"

section \<open>Supporting lemmas\<close>

subsection \<open>The loops\<close>

lemma frameArray_map:
  "frameArray ext frames array = array @ map (\<lambda>f. JObject [(''data'', serialize ext f)]) frames"
  by (induction frames arbitrary: array) auto

lemma writeAll_comprehension:
  "writeAll w json sockets = [Write c json. Some c \<leftarrow> sockets, w c]"
  by (induction w json sockets rule: writeAll.induct) auto

lemma writesTo_append: "writesTo c (xs @ ys) = writesTo c xs @ writesTo c ys"
  by (induction c xs rule: writesTo.induct) auto

lemma writesTo_writeAll_absent:
  "Some c \<notin> set sockets \<Longrightarrow> writesTo c (writeAll w json sockets) = []"
  by (induction w json sockets rule: writeAll.induct) auto

lemma writesTo_writeAll_distinct:
  "distinct sockets \<Longrightarrow>
   writesTo c (writeAll w json sockets) = (if Some c \<in> set sockets \<and> w c then [json] else [])"
  by (induction w json sockets rule: writeAll.induct) (auto simp: writesTo_writeAll_absent)

lemma filter_absent: "x \<notin> set xs \<Longrightarrow> filter (\<lambda>y. y \<noteq> x) xs = xs"
  by (induction xs) auto

lemma removeLoop_absent:
  "Some c \<notin> set (drop i xs) \<Longrightarrow> removeLoop c i xs = xs"
proof (induction c i xs rule: removeLoop.induct)
  case (1 socket i sockets)
  show ?case
  proof (cases "i < length sockets")
    case True
    from 1(3) True have ne: "sockets ! i \<noteq> Some socket"
      by (metis Cons_nth_drop_Suc list.set_intros(1))
    have "Some socket \<notin> set (drop (Suc i) sockets)"
      using 1(3) by (metis set_drop_subset subsetD drop_drop plus_1_eq_Suc)
    with 1(2)[OF True ne] True ne show ?thesis
      by (subst removeLoop.simps) simp
  next
    case False
    then show ?thesis by (subst removeLoop.simps) simp
  qed
qed

lemma removeLoop_distinct:
  "distinct xs \<Longrightarrow> Some c \<notin> set (take i xs) \<Longrightarrow> removeLoop c i xs = filter (\<lambda>x. x \<noteq> Some c) xs"
proof (induction c i xs rule: removeLoop.induct)
  case (1 socket i sockets)
  show ?case
  proof (cases "i < length sockets")
    case False
    with 1(4) have "Some socket \<notin> set sockets" by simp
    then have "filter (\<lambda>x. x \<noteq> Some socket) sockets = sockets"
      by (simp add: filter_absent)
    with False show ?thesis by (subst removeLoop.simps) simp
  next
    case True
    show ?thesis
    proof (cases "sockets ! i = Some socket")
      case eq: True
      have split: "sockets = take i sockets @ Some socket # drop (Suc i) sockets"
        using True eq by (metis id_take_nth_drop)
      from 1(3) split have nd: "Some socket \<notin> set (drop (Suc i) sockets)"
        by (metis distinct_append distinct.simps(2))
      have nin: "Some socket \<notin> set (removeAt i sockets)"
        using nd 1(4) by (simp add: removeAt_def)
      then have "removeLoop socket (Suc 0) (removeAt i sockets) = removeAt i sockets"
        by (intro removeLoop_absent) (meson in_set_dropD)
      moreover have "filter (\<lambda>x. x \<noteq> Some socket) sockets = removeAt i sockets"
      proof -
        have "filter (\<lambda>x. x \<noteq> Some socket) sockets
              = filter (\<lambda>x. x \<noteq> Some socket) (take i sockets @ Some socket # drop (Suc i) sockets)"
          using split by simp
        also have "\<dots> = take i sockets @ drop (Suc i) sockets"
          using nd 1(4) by (simp add: filter_absent)
        finally show ?thesis by (simp add: removeAt_def)
      qed
      ultimately show ?thesis using True eq by (subst removeLoop.simps) simp
    next
      case ne: False
      have "Some socket \<notin> set (take (Suc i) sockets)"
        using 1(4) ne True by (simp add: take_Suc_conv_app_nth)
      from 1(2)[OF True ne 1(3) this] True ne show ?thesis
        by (subst removeLoop.simps) simp
    qed
  qed
qed


lemma set_removeAt: "set (removeAt i xs) \<subseteq> set xs"
  unfolding removeAt_def by (auto dest: in_set_takeD in_set_dropD)

lemma set_removeLoop: "set (removeLoop c i xs) \<subseteq> set xs"
proof (induction c i xs rule: removeLoop.induct)
  case (1 socket i sockets)
  show ?case
  proof (cases "i < length sockets")
    case False
    then show ?thesis by (subst removeLoop.simps) simp
  next
    case True
    show ?thesis
    proof (cases "sockets ! i = Some socket")
      case eq: True
      from 1(1)[OF True eq] set_removeAt[of i sockets] True eq show ?thesis
        by (subst removeLoop.simps) auto
    next
      case ne: False
      from 1(2)[OF True ne] True ne show ?thesis
        by (subst removeLoop.simps) simp
    qed
  qed
qed

subsection \<open>What the slots leave alone\<close>

lemma m_sockets_emit [simp]: "m_sockets (emit es s) = m_sockets s"
  and m_frames_emit [simp]: "m_frames (emit es s) = m_frames s"
  and m_enabled_emit [simp]: "m_enabled (emit es s) = m_enabled s"
  and isWritable_emit [simp]: "isWritable (emit es s) = isWritable s"
  and readBuffer_emit [simp]: "readBuffer (emit es s) = readBuffer s"
  and connected_emit [simp]: "connected (emit es s) = connected s"
  and effects_emit [simp]: "effects (emit es s) = effects s @ es"
  by (simp_all add: emit_def)

lemma sendProcessedData_sockets: "m_sockets (sendProcessedData ext s) = m_sockets s"
  by (simp add: sendProcessedData_def Let_def)

lemma sendRawData_sockets: "m_sockets (sendRawData ext d s) = m_sockets s"
  by (simp add: sendRawData_def Let_def)

lemma absent_dispatch:
  assumes "Some c \<notin> set (m_sockets s)" and "e \<noteq> NewConnection (Some c)"
  shows "Some c \<notin> set (m_sockets (dispatch ext e s))"
proof (cases e)
  case (NewConnection pending)
  with assms show ?thesis by (auto simp: acceptConnection_def split: option.splits)
next
  case (ReadyRead sender)
  with assms show ?thesis by (auto simp: onDataReceived_def split: option.splits)
next
  case (Disconnected sender)
  with assms set_removeLoop show ?thesis
    by (auto simp: removeConnection_def split: option.splits)
next
  case (ErrorOccurred sender err)
  with assms show ?thesis by (auto simp: onErrorOccurred_def split: option.splits)
next
  case (FrameChanged f)
  with assms show ?thesis by (auto simp: registerFrame_def)
next
  case Timeout1Hz
  with assms show ?thesis by (simp add: sendProcessedData_sockets)
next
  case (DataReceived d)
  with assms show ?thesis by (simp add: sendRawData_sockets)
next
  case (SetEnabled b)
  with assms show ?thesis by (auto simp: setEnabled_def Let_def)
next
  case (BytesArrive x y)
  with assms show ?thesis by simp
next
  case (WritableChanged x y)
  with assms show ?thesis by simp
next
  case (StateChanged x y)
  with assms show ?thesis by simp
qed

lemma abort_keeps:
  "m_enabled (abort c s) = m_enabled s" "m_frames (abort c s) = m_frames s"
  "writesTo d (effects (abort c s)) = writesTo d (effects s)"
  by (simp_all add: abort_def removeConnection_def writesTo_append)

lemma abortLoop_keeps:
  "m_enabled (abortLoop i s) = m_enabled s \<and> m_frames (abortLoop i s) = m_frames s
   \<and> writesTo d (effects (abortLoop i s)) = writesTo d (effects s)"
proof (induction i s rule: abortLoop.induct)
  case (1 i s)
  show ?case
  proof (cases "i < length (m_sockets s)")
    case False
    then show ?thesis by (subst (1 2 3) abortLoop.simps) simp
  next
    case True
    show ?thesis
    proof (cases "m_sockets s ! i")
      case None
      with 1(1)[OF True None] True show ?thesis
        by (subst (1 2 3) abortLoop.simps) simp
    next
      case (Some c)
      with 1(2)[OF True Some] True show ?thesis
        by (subst (1 2 3) abortLoop.simps) (simp add: abort_keeps writesTo_append)
    qed
  qed
qed

lemma absent_dispatch_writes:
  assumes "Some c \<notin> set (m_sockets s)"
  shows "writesTo c (effects (dispatch ext e s)) = writesTo c (effects s)"
proof (cases e)
  case (NewConnection pending)
  then show ?thesis
    by (auto simp: acceptConnection_def writesTo_append split: option.splits)
next
  case (ReadyRead sender)
  then show ?thesis by (auto simp: onDataReceived_def writesTo_append split: option.splits)
next
  case (Disconnected sender)
  then show ?thesis
    by (auto simp: removeConnection_def writesTo_append split: option.splits)
next
  case (ErrorOccurred sender err)
  then show ?thesis by (auto simp: onErrorOccurred_def writesTo_append split: option.splits)
next
  case (FrameChanged f)
  then show ?thesis by (auto simp: registerFrame_def)
next
  case Timeout1Hz
  with assms show ?thesis
    by (simp add: sendProcessedData_def Let_def writesTo_append writesTo_writeAll_absent)
next
  case (DataReceived d)
  with assms show ?thesis
    by (simp add: sendRawData_def Let_def writesTo_append writesTo_writeAll_absent)
next
  case (SetEnabled b)
  then show ?thesis by (auto simp: setEnabled_def Let_def writesTo_append abortLoop_keeps)
next
  case (BytesArrive x y)
  then show ?thesis by simp
next
  case (WritableChanged x y)
  then show ?thesis by simp
next
  case (StateChanged x y)
  then show ?thesis by simp
qed

lemma absent_run:
  "Some c \<notin> set (m_sockets s) \<Longrightarrow> NewConnection (Some c) \<notin> set es \<Longrightarrow>
   Some c \<notin> set (m_sockets (run ext es s))
   \<and> writesTo c (effects (run ext es s)) = writesTo c (effects s)"
proof (induction es arbitrary: s)
  case Nil
  then show ?case by simp
next
  case (Cons e es)
  from Cons.prems have ne: "e \<noteq> NewConnection (Some c)" and rest: "NewConnection (Some c) \<notin> set es"
    by auto
  have a: "Some c \<notin> set (m_sockets (dispatch ext e s))"
    using absent_dispatch[OF Cons.prems(1) ne] .
  from Cons.IH[OF a rest] absent_dispatch_writes[OF Cons.prems(1), of ext e]
  show ?case by simp
qed

lemma run_frames:
  "run ext (map FrameChanged frames) s =
     (if m_enabled s then s\<lparr>m_frames := m_frames s @ frames\<rparr> else s)"
  by (induction frames arbitrary: s) (auto simp: registerFrame_def)

lemma sendProcessedData_enabled: "m_enabled (sendProcessedData ext s) = m_enabled s"
  by (simp add: sendProcessedData_def Let_def)

lemma sendProcessedData_clears:
  "m_enabled s \<Longrightarrow> m_sockets s \<noteq> [] \<Longrightarrow> m_frames (sendProcessedData ext s) = []"
  by (simp add: sendProcessedData_def Let_def)

lemma sendProcessedData_effects:
  "m_enabled s \<Longrightarrow> m_frames s \<noteq> [] \<Longrightarrow> m_sockets s \<noteq> [] \<Longrightarrow>
   effects (sendProcessedData ext s) =
     effects s @ writeAll (isWritable s)
       (toJson ext (JObject [(''frames'',
          JArray (map (\<lambda>f. JObject [(''data'', serialize ext f)]) (m_frames s)))]) @ [CHR 0x0A])
       (m_sockets s)"
  by (cases "m_frames s") (simp_all add: sendProcessedData_def Let_def frameArray_map)

lemma no_null_dispatch:
  "None \<notin> set (m_sockets s) \<Longrightarrow> None \<notin> set (m_sockets (dispatch ext e s))"
  using set_removeLoop
  by (cases e)
     (auto simp: acceptConnection_def onDataReceived_def removeConnection_def
        onErrorOccurred_def registerFrame_def sendProcessedData_sockets sendRawData_sockets
        setEnabled_def Let_def split: option.splits)

lemma distinct_dispatch:
  assumes "distinct (m_sockets s)" and "\<And>c. e = NewConnection (Some c) \<Longrightarrow> Some c \<notin> set (m_sockets s)"
  shows "distinct (m_sockets (dispatch ext e s))"
proof (cases e)
  case (Disconnected sender)
  then show ?thesis using assms(1) removeLoop_distinct[OF assms(1), of _ 0]
    by (auto simp: removeConnection_def split: option.splits)
next
  case (NewConnection pending)
  then show ?thesis using assms
    by (auto simp: acceptConnection_def split: option.splits)
qed (use assms(1) in \<open>auto simp: onDataReceived_def onErrorOccurred_def registerFrame_def
        sendProcessedData_sockets sendRawData_sockets setEnabled_def Let_def split: option.splits\<close>)


text \<open>
  A disabled server tracks no socket: \<open>acceptConnection\<close> registers only while enabled
  and \<open>setEnabled(false)\<close> clears the list.
\<close>

lemma removeLoop_Nil: "removeLoop c i [] = []"
  by (subst removeLoop.simps) simp

lemma disabled_no_sockets_dispatch:
  "(\<not> m_enabled s \<longrightarrow> m_sockets s = []) \<Longrightarrow>
   (\<not> m_enabled (dispatch ext e s) \<longrightarrow> m_sockets (dispatch ext e s) = [])"
  by (cases e)
     (auto simp: acceptConnection_def onDataReceived_def removeConnection_def removeLoop_Nil
        onErrorOccurred_def registerFrame_def sendProcessedData_def sendRawData_def
        setEnabled_def Let_def split: option.splits)

text \<open>
  With a socket listed twice, the loop of \<open>removeConnection\<close> leaves one copy behind: after
  removing index 0 it resumes at index 1. \<open>distinct_dispatch\<close> shows that the list has no
  duplicate as long as every accepted socket is a new one.
\<close>

lemma removeLoop_duplicate: "removeLoop 1 0 [Some 1, Some 1] = [Some 1]"
  by (simp add: removeLoop.simps removeAt_def)

subsection \<open>The concrete states, evaluated\<close>

lemma boot_eval:
  "boot = \<lparr>m_enabled = False, m_sockets = [], m_frames = [],
      isWritable = (\<lambda>c. c = 1), readBuffer = (\<lambda>c. []), errorString = (\<lambda>c. []),
      connected = (\<lambda>c. True), effects = []\<rparr>"
  by (simp add: boot_def Server_def)

lemma twoClients_eval:
  "twoClients = \<lparr>m_enabled = True, m_sockets = [Some 1, Some 2], m_frames = [],
      isWritable = (\<lambda>c. c = 1), readBuffer = (\<lambda>c. []), errorString = (\<lambda>c. []),
      connected = (\<lambda>c. True), effects = [EnabledChanged, ConnectSignals 1, ConnectSignals 2]\<rparr>"
  by (simp add: twoClients_def boot_eval setEnabled_def acceptConnection_def emit_def Let_def)

lemma noClients_eval:
  "noClients = \<lparr>m_enabled = True, m_sockets = [], m_frames = [''f1''],
      isWritable = (\<lambda>c. c = 1), readBuffer = (\<lambda>c. []), errorString = (\<lambda>c. []),
      connected = (\<lambda>c. True), effects = [EnabledChanged]\<rparr>"
  by (simp add: noClients_def boot_eval setEnabled_def registerFrame_def emit_def Let_def)

subsection \<open>Between two ticks\<close>

text \<open>
  A tick does nothing when the buffer is empty, the server is disabled or no socket is
  tracked. That condition holds after every tick, and every event other than a frame
  registration and an incoming connection preserves it.
\<close>

lemma idle_tick:
  "m_frames s = [] \<or> \<not> m_enabled s \<or> m_sockets s = [] \<Longrightarrow> sendProcessedData ext s = s"
  by (auto simp: sendProcessedData_def)

lemma idle_after_tick:
  "m_frames (sendProcessedData ext s) = [] \<or> \<not> m_enabled (sendProcessedData ext s)
   \<or> m_sockets (sendProcessedData ext s) = []"
  by (simp add: sendProcessedData_def Let_def)

lemma idle_dispatch:
  assumes "m_frames s = [] \<or> \<not> m_enabled s \<or> m_sockets s = []"
    and "\<forall>f. e \<noteq> FrameChanged f" and "\<forall>c. e \<noteq> NewConnection (Some c)"
  shows "m_frames (dispatch ext e s) = [] \<or> \<not> m_enabled (dispatch ext e s)
         \<or> m_sockets (dispatch ext e s) = []"
proof (cases e)
  case (NewConnection pending)
  with assms show ?thesis by (cases pending) (auto simp: acceptConnection_def)
next
  case (ReadyRead sender)
  with assms(1) show ?thesis by (auto simp: onDataReceived_def split: option.splits)
next
  case (Disconnected sender)
  with assms(1) show ?thesis
    by (auto simp: removeConnection_def removeLoop_Nil split: option.splits)
next
  case (ErrorOccurred sender err)
  with assms(1) show ?thesis by (auto simp: onErrorOccurred_def split: option.splits)
next
  case (FrameChanged f)
  with assms(2) show ?thesis by simp
next
  case Timeout1Hz
  then show ?thesis using idle_after_tick[of ext s] by auto
next
  case (DataReceived d)
  with assms(1) show ?thesis by (auto simp: sendRawData_def Let_def)
next
  case (SetEnabled b)
  then show ?thesis by (simp add: setEnabled_def Let_def)
next
  case (BytesArrive x y)
  with assms(1) show ?thesis by simp
next
  case (WritableChanged x y)
  with assms(1) show ?thesis by simp
next
  case (StateChanged x y)
  with assms(1) show ?thesis by simp
qed

lemma idle_run:
  "m_frames s = [] \<or> \<not> m_enabled s \<or> m_sockets s = [] \<Longrightarrow>
   \<forall>f. FrameChanged f \<notin> set es \<Longrightarrow> \<forall>c. NewConnection (Some c) \<notin> set es \<Longrightarrow>
   m_frames (run ext es s) = [] \<or> \<not> m_enabled (run ext es s) \<or> m_sockets (run ext es s) = []"
proof (induction es arbitrary: s)
  case Nil
  then show ?case by simp
next
  case (Cons e es)
  have "m_frames (dispatch ext e s) = [] \<or> \<not> m_enabled (dispatch ext e s)
         \<or> m_sockets (dispatch ext e s) = []"
    using Cons.prems by (intro idle_dispatch) auto
  from Cons.IH[OF this] Cons.prems(2,3) show ?case by simp
qed

text \<open>
  While the server stays enabled, only a tick and \<open>setEnabled\<close> take frames out of the
  buffer; every other event leaves it alone or, for a frame registration, appends to it.
\<close>

lemma enabled_dispatch:
  "\<forall>b. e \<noteq> SetEnabled b \<Longrightarrow> m_enabled (dispatch ext e s) = m_enabled s"
  by (cases e)
     (auto simp: acceptConnection_def onDataReceived_def removeConnection_def
        onErrorOccurred_def registerFrame_def sendProcessedData_def sendRawData_def
        Let_def split: option.splits)

lemma frames_dispatch:
  "\<forall>b. e \<noteq> SetEnabled b \<Longrightarrow> e \<noteq> Timeout1Hz \<Longrightarrow> m_enabled s \<Longrightarrow>
   m_frames (dispatch ext e s) = m_frames s @ [f. FrameChanged f \<leftarrow> [e]]"
  by (cases e)
     (auto simp: acceptConnection_def onDataReceived_def removeConnection_def
        onErrorOccurred_def registerFrame_def sendRawData_def
        Let_def split: option.splits)

lemma frames_run:
  "\<forall>b. SetEnabled b \<notin> set es \<Longrightarrow> Timeout1Hz \<notin> set es \<Longrightarrow> m_enabled s \<Longrightarrow>
   m_enabled (run ext es s)
   \<and> m_frames (run ext es s) = m_frames s @ [f. FrameChanged f \<leftarrow> es]"
proof (induction es arbitrary: s)
  case Nil
  then show ?case by simp
next
  case (Cons e es)
  have ne: "\<forall>b. e \<noteq> SetEnabled b" "e \<noteq> Timeout1Hz" using Cons.prems by auto
  have en: "m_enabled (dispatch ext e s)"
    using enabled_dispatch[OF ne(1)] Cons.prems(3) by simp
  have fr: "m_frames (dispatch ext e s) = m_frames s @ [f. FrameChanged f \<leftarrow> [e]]"
    using frames_dispatch[OF ne Cons.prems(3)] .
  from Cons.IH[OF _ _ en] Cons.prems(1,2) fr show ?case by simp
qed

lemma enabled_run:
  "\<forall>b. SetEnabled b \<notin> set es \<Longrightarrow> m_enabled (run ext es s) = m_enabled s"
proof (induction es arbitrary: s)
  case Nil
  then show ?case by simp
next
  case (Cons e es)
  then show ?case using enabled_dispatch[of e ext s] by auto
qed

text \<open>
  \<open>setEnabled(false)\<close> with two connected clients: \<open>abort\<close> of socket 1 runs
  \<open>removeConnection\<close>, socket 2 moves to index 0, and the loop, now at index 1, ends without
  aborting it. The list is cleared all the same.
\<close>

lemma setEnabled_false_skips_socket:
  "effects (setEnabled False twoClients) =
     effects twoClients @ [EnabledChanged, Abort 1, DeleteLater 1, DeleteLater 1]"
  by (simp add: twoClients_eval setEnabled_def Let_def abortLoop.simps abort_def
        removeConnection_def removeLoop.simps removeAt_def emit_def)

section \<open>Properties\<close>

subsection \<open>The periodic broadcast\<close>

text \<open>
  C1, as amended. After \<open>sendProcessedData\<close> the frame buffer is empty whenever the server
  is enabled and tracks at least one socket. When the server is disabled or tracks no socket,
  the slot returns at one of its guards and changes nothing, so the buffer is what it was. A
  second tick changes nothing and writes nothing, whatever events lie between the two ticks,
  as long as none of them registers a frame or brings an incoming connection.
\<close>

theorem tick_buffer_after:
  "(m_enabled s \<and> m_sockets s \<noteq> [] \<longrightarrow> m_frames (sendProcessedData ext s) = [])
   \<and> (\<not> (m_enabled s \<and> m_sockets s \<noteq> []) \<longrightarrow> sendProcessedData ext s = s)
   \<and> sendProcessedData ext (sendProcessedData ext s) = sendProcessedData ext s
   \<and> effects (sendProcessedData ext (sendProcessedData ext s))
       = effects (sendProcessedData ext s)
   \<and> ((\<forall>f. FrameChanged f \<notin> set es) \<and> (\<forall>c. NewConnection (Some c) \<notin> set es) \<longrightarrow>
        sendProcessedData ext (run ext es (sendProcessedData ext s))
          = run ext es (sendProcessedData ext s)
        \<and> effects (sendProcessedData ext (run ext es (sendProcessedData ext s)))
          = effects (run ext es (sendProcessedData ext s)))"
proof -
  have a: "m_enabled s \<and> m_sockets s \<noteq> [] \<longrightarrow> m_frames (sendProcessedData ext s) = []"
    by (simp add: sendProcessedData_clears)
  have b: "\<not> (m_enabled s \<and> m_sockets s \<noteq> []) \<longrightarrow> sendProcessedData ext s = s"
    by (auto simp: sendProcessedData_def)
  have c: "sendProcessedData ext (sendProcessedData ext s) = sendProcessedData ext s"
    by (rule idle_tick) (rule idle_after_tick)
  have d: "sendProcessedData ext (run ext es (sendProcessedData ext s))
          = run ext es (sendProcessedData ext s)"
    if "\<forall>f. FrameChanged f \<notin> set es" "\<forall>c. NewConnection (Some c) \<notin> set es"
    by (rule idle_tick) (rule idle_run[OF idle_after_tick that])
  from a b c d show ?thesis by simp
qed

text \<open>
  The amended C1 at two states: two clients and one buffered frame (the buffer is emptied,
  and a tick after a raw chunk, a disconnection and a null pending connection writes
  nothing), and no client (nothing changes).
\<close>

theorem tick_buffer_after_witness:
  "m_enabled twoClients \<and> m_sockets twoClients \<noteq> []
   \<and> m_frames (sendProcessedData ext0 (registerFrame ''f1'' twoClients)) = []
   \<and> \<not> (m_enabled noClients \<and> m_sockets noClients \<noteq> [])
   \<and> sendProcessedData ext0 noClients = noClients
   \<and> effects (sendProcessedData ext0
        (run ext0 [DataReceived ''hi'', Disconnected (Some 2), NewConnection None]
           (sendProcessedData ext0 (registerFrame ''f1'' twoClients))))
      = effects (run ext0 [DataReceived ''hi'', Disconnected (Some 2), NewConnection None]
           (sendProcessedData ext0 (registerFrame ''f1'' twoClients)))"
  using tick_buffer_after [of "registerFrame ''f1'' twoClients" ext0
      "[DataReceived ''hi'', Disconnected (Some 2), NewConnection None]"]
    tick_buffer_after [of noClients ext0 "[]"]
  by (simp add: twoClients_eval noClients_eval registerFrame_def)

text \<open>
  C1 as stated fails in both halves. Enabled, one frame buffered and no client, the tick
  stops at ``Stop if no sockets are available'' and the frame is still in the buffer
  afterwards. When a client then connects, the next tick sends that frame to it, although no
  frame was registered between the two ticks.
\<close>

theorem tick_keeps_frames_without_sockets:
  \<open>m_frames (sendProcessedData ext0 noClients) \<noteq> []
   \<and> writesTo 1 (effects (run ext0 [Timeout1Hz, NewConnection (Some 1)] noClients)) = []
   \<and> writesTo 1 (effects (run ext0 [Timeout1Hz, NewConnection (Some 1), Timeout1Hz] noClients))
       = [''{"frames":[{"data":"f1"}]}'' @ [CHR 0x0A]]\<close>
  by (simp add: noClients_eval sendProcessedData_def acceptConnection_def emit_def
        ext0_def quoted_def Let_def)

text \<open>
  C2, as amended. At a tick with the server enabled, the buffer non-empty and at least one
  socket tracked (each listed once), the slot writes one payload, the compact JSON of
  \<open>{"frames": [{"data": f}, ...]}\<close> with one entry per buffered frame in buffer order
  followed by the single byte 0x0A, to each tracked socket that is writable, in list order;
  each socket receives that payload once if it is tracked and writable, and nothing
  otherwise. The buffer holds exactly the frames registered since the previous tick, in
  registration order, when that tick ran with at least one socket tracked and \<open>setEnabled\<close>
  was not called since.
\<close>

theorem tick_broadcasts_buffered_frames:
  fixes p :: "'f server" and es :: "'f event list" and ext :: "'f externals"
  defines "s \<equiv> run ext es (sendProcessedData ext p)"
  defines "json \<equiv>
    toJson ext (JObject [(''frames'',
      JArray (map (\<lambda>f. JObject [(''data'', serialize ext f)]) (m_frames s)))]) @ [CHR 0x0A]"
  assumes "m_enabled s" and "m_frames s \<noteq> []" and "m_sockets s \<noteq> []"
    and "distinct (m_sockets s)"
  shows "effects (sendProcessedData ext s) =
        effects s @ [Write c json. Some c \<leftarrow> m_sockets s, isWritable s c]
    \<and> (\<forall>c. writesTo c (effects (sendProcessedData ext s)) =
          writesTo c (effects s) @
            (if Some c \<in> set (m_sockets s) \<and> isWritable s c then [json] else []))
    \<and> (m_sockets p \<noteq> [] \<and> Timeout1Hz \<notin> set es \<and> (\<forall>b. SetEnabled b \<notin> set es) \<longrightarrow>
          m_frames s = [f. FrameChanged f \<leftarrow> es])"
proof -
  let ?q = "sendProcessedData ext p"
  have eff: "effects (sendProcessedData ext s)
      = effects s @ writeAll (isWritable s) json (m_sockets s)"
    using sendProcessedData_effects[OF assms(3,4,5), of ext] by (simp add: json_def)
  have fr: "m_frames s = [f. FrameChanged f \<leftarrow> es]"
    if h: "m_sockets p \<noteq> []" "Timeout1Hz \<notin> set es" "\<forall>b. SetEnabled b \<notin> set es"
  proof -
    have en: "m_enabled ?q" using assms(3) enabled_run[OF h(3), of ext ?q] by (simp add: s_def)
    then have "m_enabled p" by (simp add: sendProcessedData_enabled)
    then have "m_frames ?q = []" using h(1) by (simp add: sendProcessedData_clears)
    with frames_run[OF h(3) h(2) en, of ext] show ?thesis by (simp add: s_def)
  qed
  from eff fr assms(6) show ?thesis
    by (simp add: writesTo_append writesTo_writeAll_distinct writeAll_comprehension[symmetric])
qed

text \<open>
  The amended C2 at two clients, socket 1 writable and socket 2 not: after a tick, three
  frames are registered and a third client (not writable) connects; at the next tick socket
  1 receives one line with the three frames and socket 2 nothing.
\<close>

theorem tick_broadcasts_buffered_frames_witness:
  \<open>m_enabled (run ext0 [FrameChanged ''f1'', NewConnection (Some 3), FrameChanged ''f2'',
       FrameChanged ''f3''] (sendProcessedData ext0 twoClients))
   \<and> m_sockets (run ext0 [FrameChanged ''f1'', NewConnection (Some 3), FrameChanged ''f2'',
       FrameChanged ''f3''] (sendProcessedData ext0 twoClients)) = [Some 1, Some 2, Some 3]
   \<and> m_sockets twoClients \<noteq> []
   \<and> m_frames (run ext0 [FrameChanged ''f1'', NewConnection (Some 3), FrameChanged ''f2'',
       FrameChanged ''f3''] (sendProcessedData ext0 twoClients)) = [''f1'', ''f2'', ''f3'']
   \<and> writesTo 1 (effects (sendProcessedData ext0
        (run ext0 [FrameChanged ''f1'', NewConnection (Some 3), FrameChanged ''f2'',
           FrameChanged ''f3''] (sendProcessedData ext0 twoClients))))
      = [''{"frames":[{"data":"f1"},{"data":"f2"},{"data":"f3"}]}'' @ [CHR 0x0A]]
   \<and> writesTo 2 (effects (sendProcessedData ext0
        (run ext0 [FrameChanged ''f1'', NewConnection (Some 3), FrameChanged ''f2'',
           FrameChanged ''f3''] (sendProcessedData ext0 twoClients))))
      = []\<close>
proof -
  have s: "run ext0 [FrameChanged ''f1'', NewConnection (Some 3), FrameChanged ''f2'',
       FrameChanged ''f3''] (sendProcessedData ext0 twoClients)
       = twoClients\<lparr>m_sockets := [Some 1, Some 2, Some 3], m_frames := [''f1'', ''f2'', ''f3''],
           effects := effects twoClients @ [ConnectSignals 3]\<rparr>"
    by (simp add: twoClients_eval sendProcessedData_def registerFrame_def acceptConnection_def
          emit_def)
  show ?thesis
    using tick_broadcasts_buffered_frames
      [of ext0 "[FrameChanged ''f1'', NewConnection (Some 3), FrameChanged ''f2'',
           FrameChanged ''f3'']" twoClients]
    unfolding s
    by (simp add: twoClients_eval ext0_def quoted_def)
qed

text \<open>
  C2 as stated fails. After a tick that found no client and left frame \<open>f1\<close> in the
  buffer, a client connects and \<open>f2\<close> is registered: the next tick sends \<open>f1\<close> and
  \<open>f2\<close>, not only the frame registered since the previous tick. And when \<open>setEnabled(true)\<close>
  is called between \<open>f1\<close> and \<open>f2\<close>, the next tick sends \<open>f2\<close> only.
\<close>

theorem tick_resends_frames_kept_by_idle_tick:
  \<open>m_enabled (run ext0 [Timeout1Hz, NewConnection (Some 1), FrameChanged ''f2''] noClients)
   \<and> m_frames (run ext0 [Timeout1Hz, NewConnection (Some 1), FrameChanged ''f2''] noClients) \<noteq> []
   \<and> m_sockets (run ext0 [Timeout1Hz, NewConnection (Some 1), FrameChanged ''f2''] noClients)
       = [Some 1]
   \<and> writesTo 1 (effects (sendProcessedData ext0
        (run ext0 [Timeout1Hz, NewConnection (Some 1), FrameChanged ''f2''] noClients)))
       = [''{"frames":[{"data":"f1"},{"data":"f2"}]}'' @ [CHR 0x0A]]
   \<and> writesTo 1 (effects (sendProcessedData ext0
        (run ext0 [Timeout1Hz, FrameChanged ''f1'', SetEnabled True, FrameChanged ''f2'']
           twoClients)))
       = [''{"frames":[{"data":"f2"}]}'' @ [CHR 0x0A]]\<close>
  by (simp add: noClients_eval twoClients_eval sendProcessedData_def acceptConnection_def
        registerFrame_def setEnabled_def emit_def ext0_def quoted_def Let_def)

text \<open>
  C10. Neither broadcast changes the list of sockets: null entries and sockets that are not
  writable are skipped, nothing is removed and nothing is added.
\<close>

theorem broadcasts_keep_sockets:
  "m_sockets (sendProcessedData ext s) = m_sockets s
   \<and> m_sockets (sendRawData ext data s) = m_sockets s"
  by (simp add: sendProcessedData_sockets sendRawData_sockets)

subsection \<open>Enabling and disabling\<close>

text \<open>
  C3, as amended. \<open>setEnabled(true)\<close> sets the flag, emits \<open>enabledChanged\<close>, leaves the
  list of sockets as it is and empties the frame buffer; nothing else changes.
\<close>

theorem setEnabled_true_clears_frames:
  "setEnabled True s
     = s\<lparr>m_enabled := True, m_frames := [], effects := effects s @ [EnabledChanged]\<rparr>
   \<and> m_sockets (setEnabled True s) = m_sockets s
   \<and> m_frames (setEnabled True s) = []"
  by (simp add: setEnabled_def emit_def Let_def)

text \<open>
  C3 as stated fails: on an enabled server with one buffered frame, \<open>setEnabled(true)\<close>
  changes the buffer (the two \<open>m_frames\<close> calls at the end of the slot are outside the
  \<open>if (!enabled)\<close> block).
\<close>

theorem setEnabled_true_changes_buffer:
  "m_frames (setEnabled True (registerFrame ''f1'' twoClients))
     \<noteq> m_frames (registerFrame ''f1'' twoClients)"
  by (simp add: twoClients_eval registerFrame_def setEnabled_def emit_def Let_def)

text \<open>
  C5. \<open>setEnabled(false)\<close> leaves no tracked socket and an empty frame buffer, from every
  state: the list is cleared after the loop, whichever sockets the loop reached and whatever
  their aborts did.
\<close>

theorem setEnabled_false_clears:
  "m_sockets (setEnabled False s) = [] \<and> m_frames (setEnabled False s) = []
   \<and> \<not> m_enabled (setEnabled False s)"
  by (simp add: setEnabled_def Let_def abortLoop_keeps)

text \<open>
  C6. A disabled server has an empty frame buffer: this holds after the constructor, every
  event preserves it, so it holds after every sequence of events. A frame-ready event on a
  disabled server changes nothing, and whatever happens afterwards is what would have
  happened without it: the frame is never broadcast.
\<close>

theorem disabled_buffer_empty:
  fixes s :: "'f server" and listening err w r e k
  defines "init \<equiv> Server listening err w r e k"
  shows "(\<not> m_enabled init \<and> m_frames init = [])
   \<and> ((\<not> m_enabled s \<longrightarrow> m_frames s = []) \<longrightarrow>
        (\<not> m_enabled (dispatch ext ev s) \<longrightarrow> m_frames (dispatch ext ev s) = []))
   \<and> (\<not> m_enabled (run ext es init) \<longrightarrow> m_frames (run ext es init) = [])
   \<and> (\<not> m_enabled s \<longrightarrow>
        registerFrame frame s = s \<and> run ext (FrameChanged frame # es) s = run ext es s)"
proof -
  have step: "(\<not> m_enabled (dispatch ext ev t) \<longrightarrow> m_frames (dispatch ext ev t) = [])"
    if "\<not> m_enabled t \<longrightarrow> m_frames t = []" for ev and t :: "'f server"
    using that
    by (cases ev)
       (auto simp: acceptConnection_def onDataReceived_def removeConnection_def
          onErrorOccurred_def registerFrame_def sendProcessedData_def sendRawData_def
          setEnabled_def Let_def split: option.splits)
  have runs: "(\<not> m_enabled (run ext evs t) \<longrightarrow> m_frames (run ext evs t) = [])"
    if "\<not> m_enabled t \<longrightarrow> m_frames t = []" for evs and t :: "'f server"
    using that
  proof (induction evs arbitrary: t)
    case Nil
    then show ?case by simp
  next
    case (Cons a evs)
    from Cons.IH[OF step[OF Cons.prems]] show ?case by simp
  qed
  have i: "\<not> m_enabled init \<and> m_frames init = []" by (simp add: init_def Server_def)
  from i step[of s ev] runs[of init es] show ?thesis
    by (simp add: registerFrame_def)
qed

text \<open>
  C6 at the constructed server: a frame registered before enabling makes no difference to a
  later enable, accept and tick; and a frame registered while enabled is gone after
  disabling.
\<close>

theorem disabled_buffer_empty_witness:
  "\<not> m_enabled boot \<and> registerFrame ''f1'' boot = boot
   \<and> run ext0 [FrameChanged ''f1'', SetEnabled True, NewConnection (Some 1), Timeout1Hz] boot
     = run ext0 [SetEnabled True, NewConnection (Some 1), Timeout1Hz] boot
   \<and> m_frames (run ext0 [SetEnabled True, FrameChanged ''f1'', SetEnabled False] boot) = []"
  using disabled_buffer_empty [of True "[]" "\<lambda>c. c = 1" "\<lambda>c. []" "\<lambda>c. []" "\<lambda>c. True" boot ext0
      "SetEnabled True" "[SetEnabled True, FrameChanged ''f1'', SetEnabled False]" "''f1''"]
    disabled_buffer_empty [of True "[]" "\<lambda>c. c = 1" "\<lambda>c. []" "\<lambda>c. []" "\<lambda>c. True" boot ext0
      "SetEnabled True" "[SetEnabled True, NewConnection (Some 1), Timeout1Hz]" "''f1''"]
  by (simp add: boot_def[symmetric])
     (simp add: boot_eval setEnabled_def registerFrame_def emit_def Let_def)

subsection \<open>Bytes from a client\<close>

text \<open>
  C4, as amended. On a readable-data event from a socket: if the server is enabled, the
  socket's whole read buffer is read (which empties it) and handed unchanged to
  \<open>IO::Manager::writeData\<close>, once, and the list of sockets is unchanged; if the server is
  disabled, the slot does nothing at all: the bytes are not read and stay in the socket's
  buffer, the list of sockets is unchanged and nothing is closed.
\<close>

theorem onDataReceived_forwards_or_ignores:
  "(m_enabled s \<longrightarrow>
      effects (onDataReceived (Some c) s) = effects s @ [WriteData (readBuffer s c)]
      \<and> readBuffer (onDataReceived (Some c) s) = (readBuffer s)(c := [])
      \<and> m_sockets (onDataReceived (Some c) s) = m_sockets s)
   \<and> (\<not> m_enabled s \<longrightarrow> onDataReceived (Some c) s = s)"
  by (simp add: onDataReceived_def)

text \<open>
  The amended C4 at the dormant state, once after enabling it (the three bytes are forwarded
  and the buffer is empty) and once as it is (nothing changes).
\<close>

theorem onDataReceived_forwards_or_ignores_witness:
  "m_enabled (setEnabled True dormant)
   \<and> effects (onDataReceived (Some 1) (setEnabled True dormant))
       = [EnabledChanged, WriteData ''abc'']
   \<and> readBuffer (onDataReceived (Some 1) (setEnabled True dormant)) 1 = []
   \<and> \<not> m_enabled dormant \<and> onDataReceived (Some 1) dormant = dormant"
  using onDataReceived_forwards_or_ignores [of "setEnabled True dormant" 1]
    onDataReceived_forwards_or_ignores [of dormant 1]
  by (simp add: dormant_def setEnabled_def emit_def Let_def)

text \<open>
  C4 as stated fails: on the disabled server the bytes are not read. They are still in the
  socket's buffer after the slot, and the first readable-data event after enabling hands
  them to the pipeline.
\<close>

theorem onDataReceived_disabled_does_not_read:
  "\<not> m_enabled dormant \<and> Some 1 \<in> set (m_sockets dormant)
   \<and> readBuffer (onDataReceived (Some 1) dormant) 1 = ''abc''
   \<and> effects (onDataReceived (Some 1) (setEnabled True (onDataReceived (Some 1) dormant)))
       = [EnabledChanged, WriteData ''abc'']"
  by (simp add: dormant_def onDataReceived_def setEnabled_def emit_def Let_def)

subsection \<open>Raw passthrough\<close>

text \<open>
  C7. On a raw-bytes event, an enabled server with at least one tracked socket builds one
  payload, the compact JSON of \<open>{"data": <base64 of the chunk>}\<close> followed by the single
  byte 0x0A,
  and writes it within the slot to each tracked socket that is writable, in list order; with
  each socket listed once, a socket receives it once if tracked and writable and nothing
  otherwise. The frame buffer is not touched. A disabled server does nothing.
\<close>

theorem sendRawData_broadcast:
  fixes s :: "'f server" and ext :: "'f externals" and data :: QByteArray
  defines "json \<equiv> toJson ext (JObject [(''data'', JString (toBase64 ext data))]) @ [CHR 0x0A]"
  shows "(m_enabled s \<and> m_sockets s \<noteq> [] \<longrightarrow>
      effects (sendRawData ext data s) =
        effects s @ [Write c json. Some c \<leftarrow> m_sockets s, isWritable s c]
      \<and> (distinct (m_sockets s) \<longrightarrow>
           (\<forall>c. writesTo c (effects (sendRawData ext data s)) =
              writesTo c (effects s) @
                (if Some c \<in> set (m_sockets s) \<and> isWritable s c then [json] else []))))
   \<and> m_frames (sendRawData ext data s) = m_frames s
   \<and> (\<not> m_enabled s \<longrightarrow> sendRawData ext data s = s)"
proof -
  have a: "m_frames (sendRawData ext data s) = m_frames s"
    by (simp add: sendRawData_def Let_def)
  have b: "\<not> m_enabled s \<longrightarrow> sendRawData ext data s = s"
    by (simp add: sendRawData_def)
  have c: "effects (sendRawData ext data s)
      = effects s @ writeAll (isWritable s) json (m_sockets s)"
    if "m_enabled s" "m_sockets s \<noteq> []"
    using that by (cases "m_sockets s") (simp_all add: sendRawData_def Let_def json_def)
  from a b c show ?thesis
    by (simp add: writesTo_append writesTo_writeAll_distinct writeAll_comprehension[symmetric])
qed

text \<open>
  C7 at two clients, socket 1 writable and socket 2 not, and the chunk \<open>hi\<close>: one line goes
  to socket 1 only; the disabled server is unchanged.
\<close>

theorem sendRawData_broadcast_witness:
  \<open>m_enabled twoClients \<and> m_sockets twoClients \<noteq> [] \<and> distinct (m_sockets twoClients)
   \<and> effects (sendRawData ext0 ''hi'' twoClients)
       = effects twoClients @ [Write 1 (''{"data":"aGk="}'' @ [CHR 0x0A])]
   \<and> writesTo 2 (effects (sendRawData ext0 ''hi'' twoClients)) = []
   \<and> \<not> m_enabled boot \<and> sendRawData ext0 ''hi'' boot = boot\<close>
  using sendRawData_broadcast [of twoClients ext0 "''hi''"]
    sendRawData_broadcast [of boot ext0 "''hi''"]
  by (simp add: twoClients_eval boot_eval ext0_def quoted_def b64_def)

subsection \<open>Disconnection and socket errors\<close>

text \<open>
  C8. When a socket that the list holds once (as every entry is, see \<open>distinct_dispatch\<close>)
  reports its disconnection, \<open>removeConnection\<close> takes it out of the list; and through every
  later sequence of events that does not accept that socket again it stays out of the list
  and no message is written to it, by a tick or by a raw passthrough.
\<close>

theorem disconnected_socket_never_written:
  assumes "distinct (m_sockets s)" and "NewConnection (Some c) \<notin> set es"
  shows "Some c \<notin> set (m_sockets (removeConnection (Some c) s))
       \<and> Some c \<notin> set (m_sockets (run ext es (removeConnection (Some c) s)))
       \<and> writesTo c (effects (run ext es (removeConnection (Some c) s)))
           = writesTo c (effects s)"
proof -
  let ?s' = "removeConnection (Some c) s"
  have "m_sockets ?s' = filter (\<lambda>x. x \<noteq> Some c) (m_sockets s)"
    using removeLoop_distinct[OF assms(1), of c 0] by (simp add: removeConnection_def)
  then have a: "Some c \<notin> set (m_sockets ?s')" by simp
  have w: "writesTo c (effects ?s') = writesTo c (effects s)"
    by (simp add: removeConnection_def writesTo_append)
  from absent_run[OF a assms(2), of ext] a w show ?thesis by simp
qed

text \<open>
  C8 at two clients: socket 1 disconnects, then a frame, a tick and a raw chunk follow;
  socket 2 alone is left in the list and nothing is written to socket 1.
\<close>

theorem disconnected_socket_never_written_witness:
  "distinct (m_sockets twoClients)
   \<and> NewConnection (Some 1) \<notin> set [FrameChanged ''f1'', Timeout1Hz, DataReceived ''hi'']
   \<and> m_sockets (removeConnection (Some 1) twoClients) = [Some 2]
   \<and> writesTo 1 (effects (run ext0 [FrameChanged ''f1'', Timeout1Hz, DataReceived ''hi'']
        (removeConnection (Some 1) twoClients))) = []"
  using disconnected_socket_never_written [of twoClients 1
      "[FrameChanged ''f1'', Timeout1Hz, DataReceived ''hi'']" ext0]
  by (simp add: twoClients_eval removeConnection_def removeLoop.simps removeAt_def emit_def)

text \<open>
  C9. \<open>onErrorOccurred\<close> writes one log line, the socket's error string when the sender is a
  socket and the numeric error code when there is none, and does nothing else: the list of
  sockets, the enabled flag and the frame buffer are unchanged and no socket is closed.
\<close>

theorem onErrorOccurred_only_logs:
  "effects (onErrorOccurred sender socketError s) =
     effects s @ [case sender of Some c \<Rightarrow> DebugText (errorString s c)
                               | None \<Rightarrow> DebugCode socketError]
   \<and> m_sockets (onErrorOccurred sender socketError s) = m_sockets s
   \<and> m_enabled (onErrorOccurred sender socketError s) = m_enabled s
   \<and> m_frames (onErrorOccurred sender socketError s) = m_frames s"
  by (cases sender) (simp_all add: onErrorOccurred_def)

end
